theory Spec2Isabelle
  imports Main "HOL-Library.AList"
begin

section \<open>The notebook RAPIDS-regex-email-addresses\<close>

text \<open>
  The notebook builds a list of thirteen email-like values (one of them \<open>np.nan\<close>), puts
  it into a pandas series and a cuDF series, drops the missing value, and runs six candidate
  regular expressions through \<open>Series.str.match\<close> of both libraries. Each pattern's two
  result columns are stored in a dictionary and compared with \<open>Series.equals\<close>.

  The two regex engines are library code that the notebook only calls. The comparison loop
  is modelled with both engines as parameters; the anchored bracket-expression matcher that
  the specification describes is modelled separately, from the specification.
\<close>

subsection \<open>Test data and series\<close>

datatype datum = NaN | Str string

text \<open>Python's \<open>str(e)\<close> on an element of the list: \<open>str(np.nan)\<close> is \<open>'nan'\<close>.\<close>

fun str :: "datum \<Rightarrow> string" where
  "str NaN = ''nan''"
| "str (Str s) = s"

definition test_data_list :: "datum list" where
  "test_data_list =
    [Str ''john.smith@example.com'',
     NaN,
     Str ''team@domain.com'',
     Str ''junk@example.com'',
     Str ''hithere@whatsup.yo'',
     Str ''hi-there@whatsup.yo'',
     Str ''hithere@whats-up.yo'',
     Str ''hi-there@whats-up.yo'',
     Str ''hi.there@whatsup.yo'',
     Str ''hithere@whats.up.yo'',
     Str ''hi.there@whats.up.yo'',
     Str ''hi_there@whats.up.yo'',
     Str ''hi_there@whats_up.yo'']"

text \<open>
  A series is a column of values together with its row labels. \<open>pd.Series(xs)\<close> and
  \<open>cudf.Series(xs)\<close> label the rows \<open>0, 1, ...\<close>; \<open>dropna\<close> removes the rows
  holding a missing value and keeps the labels of the others.
\<close>

record 'a series =
  index :: "nat list"
  vals :: 'a

definition Series :: "'a list \<Rightarrow> 'a list series" where
  "Series xs = \<lparr>index = [0..<length xs], vals = xs\<rparr>"

definition dropna :: "datum list series \<Rightarrow> string list series" where
  "dropna s =
     (let kept = List.map_filter (\<lambda>(i, v). case v of NaN \<Rightarrow> None | Str t \<Rightarrow> Some (i, t))
                   (zip (index s) (vals s))
      in \<lparr>index = map fst kept, vals = map snd kept\<rparr>)"

text \<open>\<open>[emailadr for emailadr in test_data_list if str(emailadr) != 'nan']\<close>\<close>

definition test_data_to_show :: "datum list \<Rightarrow> datum list" where
  "test_data_to_show tdl = filter (\<lambda>emailadr. str emailadr \<noteq> ''nan'') tdl"

subsection \<open>Match columns and the two engines\<close>

text \<open>
  A column of match results is either a boolean column (what \<open>str.match\<close> returns) or
  a float64 column (the array \<open>np.empty(n)\<close> filled with \<open>err_match_value\<close>, whose only
  value is the integer \<open>-1\<close>). The constructor is the column's dtype.
\<close>

datatype column = BoolCol "bool list" | Float64Col "int list"

fun size_col :: "column \<Rightarrow> nat" where
  "size_col (BoolCol bs) = length bs"
| "size_col (Float64Col xs) = length xs"

datatype exn = Exn string

text \<open>
  An engine compiles a pattern, which may raise, and then tests every string of the series
  on its own: \<open>Series.str.match(pat)\<close> returns a boolean series with the labels of the
  series it is called on.
\<close>

type_synonym engine = "string \<Rightarrow> exn + (string \<Rightarrow> bool)"

definition str_match :: "engine \<Rightarrow> string list series \<Rightarrow> string \<Rightarrow> exn + column series" where
  "str_match eng s pat =
     (case eng pat of
        Inl e \<Rightarrow> Inl e
      | Inr f \<Rightarrow> Inr \<lparr>index = index s, vals = BoolCol (map f (vals s))\<rparr>)"

text \<open>
  \<open>Series.equals\<close>: the row labels are equal, the dtypes are equal and the values are
  equal.
\<close>

definition equals :: "column series \<Rightarrow> column series \<Rightarrow> bool" where
  "equals a b = (index a = index b \<and> vals a = vals b)"

definition err_match_value :: int where
  "err_match_value = -1"

text \<open>
  \<open>cu_error_matches = np.empty(n); cu_error_matches[:] = err_match_value;
  cudf.Series.from_pandas(cu_error_matches)\<close>: every slot of the fresh array is overwritten,
  and the series built from the bare array gets the default labels.
\<close>

definition cu_error_matches :: "nat \<Rightarrow> column series" where
  "cu_error_matches n = \<lparr>index = [0..<n], vals = Float64Col (replicate n err_match_value)\<rparr>"

subsection \<open>The comparison loop\<close>

text \<open>
  The keys of \<open>results_by_data_point_dict\<close>: \<open>'email'\<close>, \<open>f'pd-regex-{ii}'\<close> and
  \<open>f'cu-regex-{ii}'\<close>, one key per index as the formatted strings are. Its values are
  the display list, a pandas series, or a bare array (\<open>cu_matches.to_numpy()\<close>).
\<close>

datatype key = Email | PdRegex nat | CuRegex nat

datatype dictval = ListV "datum list" | SeriesV "column series" | ArrayV column

text \<open>
  Reading a name that was never assigned raises \<open>NameError\<close>, and writing an array slot
  that does not exist raises \<open>IndexError\<close>; nothing in the cell catches either.
\<close>

datatype error = NameError string | IndexError

text \<open>
  The variables of the cell that outlive one iteration. \<open>None\<close> for \<open>pd_matches\<close> and
  \<open>cu_matches\<close> means that the name is not bound yet; \<open>None\<close> in
  \<open>are_regex_results_equal\<close> is a slot of \<open>np.empty\<close> that was never written. The printed
  lines are collected in \<open>stdout\<close>.
\<close>

record state =
  pd_matches :: "column series option"
  cu_matches :: "column series option"
  results_by_data_point_dict :: "(key \<times> dictval) list"
  are_regex_results_equal :: "int option list"
  stdout :: "string list"

text \<open>
  \<open>try: pd_matches = pd_series.str.match(pat=my_rgx)
  except: print('Error running pandas series.')\<close>
\<close>

definition try_pandas :: "engine \<Rightarrow> string list series \<Rightarrow> string \<Rightarrow> state \<Rightarrow> state" where
  "try_pandas pd pd_series my_rgx st =
     (case str_match pd pd_series my_rgx of
        Inr m \<Rightarrow> st\<lparr>pd_matches := Some m\<rparr>
      | Inl e \<Rightarrow> st\<lparr>stdout := stdout st @ [''Error running pandas series.'']\<rparr>)"

text \<open>
  The \<open>except\<close> branch of the second \<open>try\<close>. It reads \<open>pd_matches.size\<close> first, then
  binds \<open>cu_matches\<close>, then prints the exception and the message.
\<close>

definition cu_handler :: "exn \<Rightarrow> state \<Rightarrow> error + state" where
  "cu_handler e st =
     (case pd_matches st of
        None \<Rightarrow> Inl (NameError ''pd_matches'')
      | Some pm \<Rightarrow>
          Inr (st\<lparr>cu_matches := Some (cu_error_matches (size_col (vals pm))),
                  stdout := stdout st @
                    [case e of Exn msg \<Rightarrow> msg,
                     ''Error running cuDF series.  Setting regex match value to -1.'']\<rparr>))"

definition try_cudf :: "engine \<Rightarrow> string list series \<Rightarrow> string \<Rightarrow> state \<Rightarrow> error + state" where
  "try_cudf cu cu_series my_rgx st =
     (case str_match cu cu_series my_rgx of
        Inr m \<Rightarrow> Inr (st\<lparr>cu_matches := Some m\<rparr>)
      | Inl e \<Rightarrow> cu_handler e st)"

text \<open>
  The rest of the body: \<open>this_run_dict\<close> reads \<open>pd_matches\<close> and \<open>cu_matches\<close>, the
  dictionary is updated, and the result of \<open>equals\<close> is stored in slot \<open>ii\<close> of the
  float array, as \<open>1.0\<close> or \<open>0.0\<close>, kept here as the integer \<open>1\<close> or \<open>0\<close>.
\<close>

definition record_run :: "nat \<Rightarrow> state \<Rightarrow> error + state" where
  "record_run ii st =
     (case pd_matches st of
        None \<Rightarrow> Inl (NameError ''pd_matches'')
      | Some pm \<Rightarrow>
          (case cu_matches st of
             None \<Rightarrow> Inl (NameError ''cu_matches'')
           | Some cm \<Rightarrow>
               if ii < length (are_regex_results_equal st)
               then Inr (st\<lparr>results_by_data_point_dict :=
                         AList.update (CuRegex ii) (ArrayV (vals cm))
                           (AList.update (PdRegex ii) (SeriesV pm)
                             (results_by_data_point_dict st)),
                       are_regex_results_equal :=
                         (are_regex_results_equal st)[ii := Some (of_bool (equals pm cm))]\<rparr>)
               else Inl IndexError))"

definition loop_body ::
  "engine \<Rightarrow> engine \<Rightarrow> string list series \<Rightarrow> string list series \<Rightarrow> nat \<Rightarrow> string \<Rightarrow> state
    \<Rightarrow> error + state" where
  "loop_body pd cu pd_series cu_series ii my_rgx st =
     (case try_cudf cu cu_series my_rgx (try_pandas pd pd_series my_rgx st) of
        Inl err \<Rightarrow> Inl err
      | Inr st' \<Rightarrow> record_run ii st')"

fun run_loop ::
  "engine \<Rightarrow> engine \<Rightarrow> string list series \<Rightarrow> string list series \<Rightarrow> (nat \<times> string) list \<Rightarrow> state
    \<Rightarrow> error + state" where
  "run_loop pd cu pd_series cu_series [] st = Inr st"
| "run_loop pd cu pd_series cu_series ((ii, my_rgx) # rest) st =
     (case loop_body pd cu pd_series cu_series ii my_rgx st of
        Inl err \<Rightarrow> Inl err
      | Inr st' \<Rightarrow> run_loop pd cu pd_series cu_series rest st')"

subsection \<open>The candidate patterns\<close>

definition escape_marker :: char where
  "escape_marker = CHR 0x5C"

text \<open>The six raw strings of \<open>candidate_regexes\<close>; the backslash is \<open>escape_marker\<close>.\<close>

definition candidate_regexes :: "string list" where
  "candidate_regexes =
    [''(^[a-zA-Z0-9_.+-]+@[a-zA-Z0-9-]+'' @ [escape_marker] @ ''.[a-zA-Z0-9-.]+$)'',
     ''(^[a-zA-Z0-9_.+'' @ [escape_marker] @ ''-]+@[a-zA-Z0-9'' @ [escape_marker] @ ''-]+''
        @ [escape_marker] @ ''.[a-zA-Z0-9-.]+$)'',
     ''(^[a-zA-Z0-9_+-.]+@[a-zA-Z0-9-.]+'' @ [escape_marker] @ ''.[a-zA-Z0-9-.]+$)'',
     ''(^[a-zA-Z0-9_+-.]+@[a-zA-Z0-9'' @ [escape_marker] @ ''-.]+''
        @ [escape_marker] @ ''.[a-zA-Z0-9-.]+$)'',
     ''(^[a-zA-Z0-9_+-.]+@[a-zA-Z0-9.'' @ [escape_marker] @ ''-]+''
        @ [escape_marker] @ ''.[a-zA-Z0-9-.]+$)'',
     ''(^[a-zA-Z0-9_+-.]+@[a-zA-Z0-9-'' @ [escape_marker] @ ''.]+''
        @ [escape_marker] @ ''.[a-zA-Z0-9-.]+$)'']"

text \<open>
  The whole cell up to the end of the loop, for any input list: the two series, the display
  list, the initial dictionary, the array \<open>np.empty(len(candidate_regexes))\<close>, and the loop
  over \<open>enumerate(candidate_regexes)\<close>.
\<close>

definition harness :: "engine \<Rightarrow> engine \<Rightarrow> datum list \<Rightarrow> error + state" where
  "harness pd cu tdl =
     (let pd_raw_series = Series tdl;
          cu_raw_series = Series tdl;
          pd_series = dropna pd_raw_series;
          cu_series = dropna cu_raw_series
      in run_loop pd cu pd_series cu_series (enumerate 0 candidate_regexes)
           \<lparr>pd_matches = None,
            cu_matches = None,
            results_by_data_point_dict = [(Email, ListV (test_data_to_show tdl))],
            are_regex_results_equal = replicate (length candidate_regexes) None,
            stdout = []\<rparr>)"

text \<open>
  \<open>'Do Pandas and cuDF Match': (are_regex_results_equal > 0)\<close>, the agreement flag of
  each pattern.
\<close>

definition do_pandas_and_cudf_match :: "state \<Rightarrow> bool option list" where
  "do_pandas_and_cudf_match st = map (map_option (\<lambda>x. x > 0)) (are_regex_results_equal st)"

subsection \<open>The anchored bracket-expression matcher\<close>

text \<open>
  The notebook hands every pattern to \<open>Series.str.match\<close> of pandas and of cuDF; neither
  engine is part of the repository. The matcher below is written from section 4.1 of the
  specification: a pattern of the shape \<open>^[local]+@[host]+\.[tail]+$\<close> inside one unused
  outer group, matched against the whole string.
\<close>

datatype class_item = Lit char | Range char char

text \<open>One element of a pattern: a character class and whether \<open>+\<close> follows it.\<close>

datatype atom = Atom "class_item list" bool

text \<open>
  Modelled from the spec: class membership (the engines' own code is not in the
  repository). A literal accepts itself; a range accepts every character collating between
  its two endpoints, inclusive, by character code, whichever endpoint comes first. This is
  the collation rule by which a range such as \<open>9-.\<close> is interpreted.
\<close>

fun item_accepts :: "class_item \<Rightarrow> char \<Rightarrow> bool" where
  "item_accepts (Lit l) c = (c = l)"
| "item_accepts (Range lo hi) c =
     (min (of_char lo :: nat) (of_char hi) \<le> of_char c \<and>
      (of_char c :: nat) \<le> max (of_char lo) (of_char hi))"

text \<open>Modelled from the spec: a class accepts a character that one of its items accepts.\<close>

definition class_accepts :: "class_item list \<Rightarrow> char \<Rightarrow> bool" where
  "class_accepts items c = list_ex (\<lambda>i. item_accepts i c) items"

text \<open>
  Modelled from the spec: the scan over a class body (the engines' own code is not in the
  repository). The character after an escape marker is a literal, a hyphen included. A
  hyphen that is the first or the last character of the class is a literal. In every other
  position a hyphen is the range operator between the member read before it and the
  character after it, which may itself be escaped. Any other character is a literal. The
  rule is the same wherever the hyphen sits: in \<open>0-9-.\<close> the second hyphen is neither
  first, last nor escaped, so it denotes the range between \<open>9\<close> and \<open>.\<close>. The
  argument \<open>prev\<close> is the member read last, \<open>None\<close> at the start of the class.
\<close>

fun scan_from :: "char option \<Rightarrow> string \<Rightarrow> exn + class_item list" where
  "scan_from prev [] = Inr []"
| "scan_from prev (c # rest) =
     (if c = escape_marker then
        (case rest of
           [] \<Rightarrow> Inl (Exn ''bad escape (end of pattern)'')
         | d # rest' \<Rightarrow> map_sum id (Cons (Lit d)) (scan_from (Some d) rest'))
      else if c = CHR ''-'' then
        (case prev of
           None \<Rightarrow> map_sum id (Cons (Lit c)) (scan_from (Some c) rest)
         | Some lo \<Rightarrow>
             (case rest of
                [] \<Rightarrow> Inr [Lit c]
              | h # rest' \<Rightarrow>
                  if h = escape_marker then
                    (case rest' of
                       [] \<Rightarrow> Inl (Exn ''bad escape (end of pattern)'')
                     | h' # rest'' \<Rightarrow>
                         map_sum id (Cons (Range lo h')) (scan_from (Some h') rest''))
                  else map_sum id (Cons (Range lo h)) (scan_from (Some h) rest')))
      else map_sum id (Cons (Lit c)) (scan_from (Some c) rest))"

definition scan_class :: "string \<Rightarrow> exn + class_item list" where
  "scan_class body = scan_from None body"

text \<open>
  Modelled from the spec: splitting a pattern at the end of a class (the engines' own code
  is not in the repository). The body of a class runs up to the first \<open>]\<close> that is not
  escaped; the result is the body and the rest of the pattern.
\<close>

fun class_body :: "string \<Rightarrow> (string \<times> string) option" where
  "class_body [] = None"
| "class_body (c # cs) =
     (if c = CHR '']'' then Some ([], cs)
      else if c = escape_marker then
        (case cs of
           [] \<Rightarrow> None
         | d # ds \<Rightarrow> map_option (\<lambda>(b, r). (c # d # b, r)) (class_body ds))
      else map_option (\<lambda>(b, r). (c # b, r)) (class_body cs))"

text \<open>Modelled from the spec: the quantifier \<open>+\<close> after an element, if there is one.\<close>

definition take_plus :: "string \<Rightarrow> bool \<times> string" where
  "take_plus s =
     (case s of
        [] \<Rightarrow> (False, [])
      | c # cs \<Rightarrow> if c = CHR ''+'' then (True, cs) else (False, s))"

text \<open>
  Modelled from the spec: the characters with a meaning of their own outside a class. The
  specification gives a meaning only to classes, \<open>+\<close>, escaped literals and ordinary
  literals, so a pattern using another one of them bare is refused.
\<close>

definition special :: "char \<Rightarrow> bool" where
  "special c = (c \<in> set ''.^$*+?{}[]|()'')"

text \<open>
  Modelled from the spec: the elements between the anchors (the engines' own code is not
  in the repository): a class \<open>[...]\<close>, an escaped literal such as \<open>\.\<close> (exactly that
  character, never "any character"), or an ordinary literal such as \<open>@\<close>, each followed
  by an optional \<open>+\<close>.
\<close>

function parse_atoms :: "string \<Rightarrow> exn + atom list" where
  "parse_atoms [] = Inr []"
| "parse_atoms (c # cs) =
     (if c = CHR ''['' then
        (case class_body cs of
           None \<Rightarrow> Inl (Exn ''unterminated character set'')
         | Some (body, rest) \<Rightarrow>
             (case scan_class body of
                Inl e \<Rightarrow> Inl e
              | Inr items \<Rightarrow>
                  (case take_plus rest of (q, rest') \<Rightarrow>
                     map_sum id (Cons (Atom items q)) (parse_atoms rest'))))
      else if c = escape_marker then
        (case cs of
           [] \<Rightarrow> Inl (Exn ''bad escape (end of pattern)'')
         | d # ds \<Rightarrow>
             (case take_plus ds of (q, rest') \<Rightarrow>
                map_sum id (Cons (Atom [Lit d] q)) (parse_atoms rest')))
      else if special c then Inl (Exn ''unsupported pattern'')
      else
        (case take_plus cs of (q, rest') \<Rightarrow>
           map_sum id (Cons (Atom [Lit c] q)) (parse_atoms rest')))"
  by pat_completeness auto
termination
proof -
  have shorter: "class_body s = Some (b, r) \<Longrightarrow> length r < length s" for s b r
  proof (induction s arbitrary: b r rule: class_body.induct)
    case 1
    then show ?case by simp
  next
    case (2 c cs)
    then show ?case by (fastforce split: if_splits list.splits)
  qed
  have plus: "take_plus s = (q, r) \<Longrightarrow> length r \<le> length s" for s q r
    by (auto simp: take_plus_def split: list.splits if_splits)
  show ?thesis
  proof (relation "measure length", goal_cases)
    case 1
    show ?case by simp
  next
    case (2 c cs x2 body rest items q rest')
    then show ?case using shorter[of cs body rest] plus[of rest q rest'] by simp
  next
    case (3 c cs d ds q rest')
    then show ?case using plus[of ds q rest'] by simp
  next
    case (4 c cs q rest')
    then show ?case using plus[of cs q rest'] by simp
  qed
qed

text \<open>
  Modelled from the spec: the single outer group of the source patterns, which is not used
  for submatch extraction, is dropped.
\<close>

definition strip_group :: "string \<Rightarrow> string" where
  "strip_group p =
     (if 2 \<le> length p \<and> hd p = CHR ''('' \<and> last p = CHR '')'' then butlast (tl p) else p)"

text \<open>
  Modelled from the spec: compiling a pattern (the engines' own code is not in the
  repository). The pattern has to be anchored at both ends, and a pattern outside this
  grammar is a distinct failure, never \<open>False\<close>.
\<close>

definition compile :: "string \<Rightarrow> exn + atom list" where
  "compile pat =
     (let p = strip_group pat in
      if 2 \<le> length p \<and> hd p = CHR ''^'' \<and> last p = CHR ''$''
      then parse_atoms (butlast (tl p))
      else Inl (Exn ''unsupported pattern''))"

text \<open>
  Modelled from the spec: anchored matching (the engines' own code is not in the
  repository). The whole string has to be consumed; an element with \<open>+\<close> takes one or
  more characters, each tested against the class on its own.
\<close>

fun match_atoms :: "atom list \<Rightarrow> string \<Rightarrow> bool" where
  "match_atoms [] s = (s = [])"
| "match_atoms (Atom items q # as) [] = False"
| "match_atoms (Atom items q # as) (c # cs) =
     (class_accepts items c \<and>
      (match_atoms as cs \<or> (q \<and> match_atoms (Atom items q # as) cs)))"

text \<open>
  Modelled from the spec: the result of matching one string, a boolean or the failure to
  compile the pattern.
\<close>

definition regex_match :: "string \<Rightarrow> string \<Rightarrow> exn + bool" where
  "regex_match pat s = map_sum id (\<lambda>as. match_atoms as s) (compile pat)"

text \<open>Modelled from the spec: the matcher as an engine for the comparison loop.\<close>

definition regex_engine :: engine where
  "regex_engine pat = map_sum id match_atoms (compile pat)"

text \<open>
  Modelled from the spec: the body of a character class \<open>[...]\<close> as an acceptance
  predicate on single characters.
\<close>

definition class_of :: "string \<Rightarrow> exn + (char \<Rightarrow> bool)" where
  "class_of body = map_sum id class_accepts (scan_class body)"

text \<open>The strings that remain after \<open>dropna\<close>.\<close>

definition retained :: "string list" where
  "retained = vals (dropna (Series test_data_list))"

subsection \<open>Auxiliary notions for the statements\<close>

text \<open>
  Engines for concrete runs: one that raises on every pattern, one that raises on the
  listed patterns and otherwise behaves like a given engine, and one that compiles every
  pattern and accepts every string of the listed patterns and no string of the others.
\<close>

definition failing_engine :: engine where
  "failing_engine pat = Inl (Exn ''regex error'')"

definition fail_on :: "string list \<Rightarrow> engine \<Rightarrow> engine" where
  "fail_on pats eng pat = (if pat \<in> set pats then Inl (Exn ''regex error'') else eng pat)"

definition accept_on :: "string list \<Rightarrow> engine" where
  "accept_on pats pat = Inr (\<lambda>s. pat \<in> set pats)"

text \<open>
  What \<open>cu_matches\<close> is bound to at the end of the second \<open>try\<close> when \<open>pd_matches\<close>
  holds \<open>pm\<close>: the second engine's series, or the series of sentinels of the size of \<open>pm\<close>.
\<close>

definition cu_outcome ::
  "engine \<Rightarrow> string list series \<Rightarrow> string \<Rightarrow> column series \<Rightarrow> column series" where
  "cu_outcome cu cs rgx pm =
     (case cu rgx of
        Inr g \<Rightarrow> \<lparr>index = index cs, vals = BoolCol (map g (vals cs))\<rparr>
      | Inl e \<Rightarrow> cu_error_matches (size_col (vals pm)))"

text \<open>
  The loop invariant on \<open>pd_matches\<close>: once bound, it is a boolean series over the rows
  of \<open>pd_series\<close>.
\<close>

definition pd_bound :: "string list series \<Rightarrow> state \<Rightarrow> bool" where
  "pd_bound ps st =
     (case pd_matches st of
        None \<Rightarrow> True
      | Some pm \<Rightarrow> \<exists>bs. pm = \<lparr>index = index ps, vals = BoolCol bs\<rparr> \<and>
          length bs = length (vals ps))"

text \<open>
  What \<open>pd_matches\<close> holds after the loop has gone through a list of patterns, starting
  from \<open>prev\<close>: the result of the last pattern the first engine evaluated, if any.
\<close>

fun pd_after ::
  "engine \<Rightarrow> string list series \<Rightarrow> string list \<Rightarrow> column series option
    \<Rightarrow> column series option" where
  "pd_after pd ps [] prev = prev"
| "pd_after pd ps (rgx # rest) prev =
     pd_after pd ps rest
       (case pd rgx of
          Inr f \<Rightarrow> Some \<lparr>index = index ps, vals = BoolCol (map f (vals ps))\<rparr>
        | Inl e \<Rightarrow> prev)"

text \<open>What iteration \<open>i\<close> over pattern \<open>rgx\<close> leaves in the dictionary and the array.\<close>

definition recorded ::
  "engine \<Rightarrow> engine \<Rightarrow> string list series \<Rightarrow> string list series \<Rightarrow> string \<Rightarrow> nat \<Rightarrow> state
    \<Rightarrow> bool" where
  "recorded pd cu ps cs rgx i st =
     (\<exists>pm bs.
        map_of (results_by_data_point_dict st) (PdRegex i) = Some (SeriesV pm) \<and>
        map_of (results_by_data_point_dict st) (CuRegex i) =
          Some (ArrayV (vals (cu_outcome cu cs rgx pm))) \<and>
        i < length (are_regex_results_equal st) \<and>
        are_regex_results_equal st ! i = Some (of_bool (equals pm (cu_outcome cu cs rgx pm))) \<and>
        pm = \<lparr>index = index ps, vals = BoolCol bs\<rparr> \<and> length bs = length (vals ps) \<and>
        (\<forall>f. pd rgx = Inr f \<longrightarrow> bs = map f (vals ps)))"

text \<open>
  The input list without its missing values, and what a run shows apart from row labels:
  the dictionary with every series reduced to its values, the array of comparison results,
  and the printed lines.
\<close>

definition remove_nan :: "datum list \<Rightarrow> datum list" where
  "remove_nan tdl = filter (\<lambda>x. x \<noteq> NaN) tdl"

fun drop_labels :: "dictval \<Rightarrow> dictval" where
  "drop_labels (SeriesV s) = ArrayV (vals s)"
| "drop_labels (ListV xs) = ListV xs"
| "drop_labels (ArrayV c) = ArrayV c"

definition observed :: "state \<Rightarrow> (key \<times> dictval) list \<times> int option list \<times> string list" where
  "observed st =
     (map (\<lambda>(k, v). (k, drop_labels v)) (results_by_data_point_dict st),
      are_regex_results_equal st,
      stdout st)"

text \<open>Two runs over series with the same values hold the same \<open>pd_matches\<close> up to labels.\<close>

definition same_pd :: "string list series \<Rightarrow> string list series \<Rightarrow> state \<Rightarrow> state \<Rightarrow> bool" where
  "same_pd ps ps' st st' =
     (case pd_matches st of
        None \<Rightarrow> pd_matches st' = None
      | Some pm \<Rightarrow>
          (\<exists>bs. pm = \<lparr>index = index ps, vals = BoolCol bs\<rparr> \<and>
                pd_matches st' = Some \<lparr>index = index ps', vals = BoolCol bs\<rparr>))"

text \<open>
  The items that the scan yields for \<open>a-zA-Z0-9\<close>, the common start of every class of
  the candidates: each low endpoint as a literal, followed by its range.
\<close>

definition alnum :: "class_item list" where
  "alnum = [Lit CHR ''a'', Range CHR ''a'' CHR ''z'', Lit CHR ''A'', Range CHR ''A'' CHR ''Z'',
            Lit CHR ''0'', Range CHR ''0'' CHR ''9'']"


section \<open>One iteration of the loop\<close>

lemma loop_body_Inl:
  "loop_body pd cu ps cs ii rgx st = Inl err \<longleftrightarrow>
     (if isl (pd rgx) \<and> pd_matches st = None then err = NameError ''pd_matches''
      else \<not> ii < length (are_regex_results_equal st) \<and> err = IndexError)"
  by (auto simp: loop_body_def try_cudf_def try_pandas_def cu_handler_def record_run_def
        str_match_def split: sum.splits option.splits if_splits)

lemma loop_body_Inr_ex:
  assumes "\<not> (isl (pd rgx) \<and> pd_matches st = None)" "ii < length (are_regex_results_equal st)"
  shows "\<exists>st'. loop_body pd cu ps cs ii rgx st = Inr st'"
proof (cases "loop_body pd cu ps cs ii rgx st")
  case (Inl e)
  with assms show ?thesis by (simp add: loop_body_Inl)
next
  case (Inr st1)
  then show ?thesis by blast
qed

lemma loop_body_pd_matches:
  assumes "loop_body pd cu ps cs ii rgx st = Inr st'"
  shows "pd_matches st' =
           (case pd rgx of
              Inr f \<Rightarrow> Some \<lparr>index = index ps, vals = BoolCol (map f (vals ps))\<rparr>
            | Inl e \<Rightarrow> pd_matches st)"
    and "pd_matches st' \<noteq> None"
  using assms
  by (auto simp: loop_body_def try_cudf_def try_pandas_def cu_handler_def record_run_def
        str_match_def split: sum.splits option.splits if_splits)

lemma loop_body_results:
  assumes "loop_body pd cu ps cs ii rgx st = Inr st'" "pd_matches st' = Some pm"
  shows "cu_matches st' = Some (cu_outcome cu cs rgx pm)"
    and "results_by_data_point_dict st' =
           AList.update (CuRegex ii) (ArrayV (vals (cu_outcome cu cs rgx pm)))
             (AList.update (PdRegex ii) (SeriesV pm) (results_by_data_point_dict st))"
    and "are_regex_results_equal st' =
           (are_regex_results_equal st)[ii := Some (of_bool (equals pm (cu_outcome cu cs rgx pm)))]"
    and "ii < length (are_regex_results_equal st)"
  using assms
  by (auto simp: loop_body_def try_cudf_def try_pandas_def cu_handler_def record_run_def
        str_match_def cu_outcome_def split: sum.splits option.splits if_splits)

lemma loop_body_stdout:
  assumes "loop_body pd cu ps cs ii rgx st = Inr st'"
  shows "stdout st' = stdout st @
           (if isl (pd rgx) then [''Error running pandas series.''] else []) @
           (case cu rgx of
              Inl e \<Rightarrow> [case e of Exn msg \<Rightarrow> msg,
                        ''Error running cuDF series.  Setting regex match value to -1.'']
            | Inr g \<Rightarrow> [])"
  using assms
  by (auto simp: loop_body_def try_cudf_def try_pandas_def cu_handler_def record_run_def
        str_match_def split: sum.splits option.splits if_splits)

lemma loop_body_keeps:
  assumes "loop_body pd cu ps cs ii rgx st = Inr st'"
  shows "length (are_regex_results_equal st') = length (are_regex_results_equal st)"
    and "i \<noteq> ii \<Longrightarrow> are_regex_results_equal st' ! i = are_regex_results_equal st ! i"
    and "k \<noteq> PdRegex ii \<Longrightarrow> k \<noteq> CuRegex ii \<Longrightarrow>
           map_of (results_by_data_point_dict st') k = map_of (results_by_data_point_dict st) k"
proof -
  from loop_body_pd_matches(2)[OF assms] obtain pm where "pd_matches st' = Some pm" by blast
  note r = loop_body_results[OF assms this]
  show "length (are_regex_results_equal st') = length (are_regex_results_equal st)"
    by (simp add: r(3))
  show "i \<noteq> ii \<Longrightarrow> are_regex_results_equal st' ! i = are_regex_results_equal st ! i"
    by (simp add: r(3))
  show "k \<noteq> PdRegex ii \<Longrightarrow> k \<noteq> CuRegex ii \<Longrightarrow>
           map_of (results_by_data_point_dict st') k = map_of (results_by_data_point_dict st) k"
    by (simp add: r(2) update_conv')
qed

lemma loop_body_bound:
  assumes "loop_body pd cu ps cs ii rgx st = Inr st'" "pd_bound ps st"
  shows "pd_bound ps st'"
  using loop_body_pd_matches(1)[OF assms(1)] assms(2)
  by (cases "pd rgx") (simp_all add: pd_bound_def)

lemma loop_body_recorded:
  assumes "loop_body pd cu ps cs ii rgx st = Inr st'" "pd_bound ps st"
  shows "recorded pd cu ps cs rgx ii st'"
proof -
  from loop_body_pd_matches(2)[OF assms(1)] obtain pm where pm: "pd_matches st' = Some pm"
    by blast
  note r = loop_body_results[OF assms(1) pm]
  have "\<exists>bs. pm = \<lparr>index = index ps, vals = BoolCol bs\<rparr> \<and> length bs = length (vals ps) \<and>
          (\<forall>f. pd rgx = Inr f \<longrightarrow> bs = map f (vals ps))"
  proof (cases "pd rgx")
    case (Inl e)
    with loop_body_pd_matches(1)[OF assms(1)] pm have "pd_matches st = Some pm" by simp
    with assms(2) Inl show ?thesis by (simp add: pd_bound_def)
  next
    case (Inr f)
    with loop_body_pd_matches(1)[OF assms(1)] pm show ?thesis by simp
  qed
  then obtain bs where
    bs: "pm = \<lparr>index = index ps, vals = BoolCol bs\<rparr>" "length bs = length (vals ps)"
      "\<forall>f. pd rgx = Inr f \<longrightarrow> bs = map f (vals ps)"
    by blast
  have "map_of (results_by_data_point_dict st') (PdRegex ii) = Some (SeriesV pm)"
    "map_of (results_by_data_point_dict st') (CuRegex ii) =
       Some (ArrayV (vals (cu_outcome cu cs rgx pm)))"
    using r(2) by (simp_all add: update_conv')
  moreover have "ii < length (are_regex_results_equal st')"
    "are_regex_results_equal st' ! ii = Some (of_bool (equals pm (cu_outcome cu cs rgx pm)))"
    using r(3,4) by simp_all
  ultimately show ?thesis
    unfolding recorded_def using bs by blast
qed

lemma recorded_cong:
  assumes "recorded pd cu ps cs rgx i st"
    "length (are_regex_results_equal st') = length (are_regex_results_equal st)"
    "are_regex_results_equal st' ! i = are_regex_results_equal st ! i"
    "map_of (results_by_data_point_dict st') (PdRegex i) =
       map_of (results_by_data_point_dict st) (PdRegex i)"
    "map_of (results_by_data_point_dict st') (CuRegex i) =
       map_of (results_by_data_point_dict st) (CuRegex i)"
  shows "recorded pd cu ps cs rgx i st'"
  using assms unfolding recorded_def by simp

lemma equals_labels:
  "equals \<lparr>index = index cs, vals = BoolCol bs\<rparr>
      (cu_outcome cu cs rgx \<lparr>index = index cs, vals = BoolCol bs\<rparr>) =
   (case cu rgx of Inr g \<Rightarrow> bs = map g (vals cs) | Inl e \<Rightarrow> False)"
  by (simp add: equals_def cu_outcome_def cu_error_matches_def split: sum.splits)

lemma cu_outcome_vals:
  "vals (cu_outcome cu cs rgx \<lparr>index = ix, vals = BoolCol bs\<rparr>) =
     (case cu rgx of
        Inr g \<Rightarrow> BoolCol (map g (vals cs))
      | Inl e \<Rightarrow> Float64Col (replicate (length bs) err_match_value))"
  by (simp add: cu_outcome_def cu_error_matches_def split: sum.splits)

section \<open>The whole loop\<close>

lemma run_loop_keeps:
  assumes "run_loop pd cu ps cs (enumerate n pats) st = Inr st'"
  shows "length (are_regex_results_equal st') = length (are_regex_results_equal st) \<and>
         (\<forall>i<n. are_regex_results_equal st' ! i = are_regex_results_equal st ! i \<and>
            map_of (results_by_data_point_dict st') (PdRegex i) =
              map_of (results_by_data_point_dict st) (PdRegex i) \<and>
            map_of (results_by_data_point_dict st') (CuRegex i) =
              map_of (results_by_data_point_dict st) (CuRegex i)) \<and>
         map_of (results_by_data_point_dict st') Email =
           map_of (results_by_data_point_dict st) Email"
  using assms
proof (induction pats arbitrary: n st)
  case Nil
  then show ?case by simp
next
  case (Cons rgx pats)
  from Cons.prems obtain st1 where
    b: "loop_body pd cu ps cs n rgx st = Inr st1" and
    r: "run_loop pd cu ps cs (enumerate (Suc n) pats) st1 = Inr st'"
    by (auto split: sum.splits)
  from Cons.IH[OF r] loop_body_keeps[OF b] show ?case by auto
qed

lemma run_loop_recorded:
  assumes "run_loop pd cu ps cs (enumerate n pats) st = Inr st'" "pd_bound ps st"
    "n \<le> i" "i < n + length pats"
  shows "recorded pd cu ps cs (pats ! (i - n)) i st'"
  using assms
proof (induction pats arbitrary: n st)
  case Nil
  then show ?case by simp
next
  case (Cons rgx pats)
  from Cons.prems(1) obtain st1 where
    b: "loop_body pd cu ps cs n rgx st = Inr st1" and
    r: "run_loop pd cu ps cs (enumerate (Suc n) pats) st1 = Inr st'"
    by (auto split: sum.splits)
  have bound1: "pd_bound ps st1" using loop_body_bound[OF b Cons.prems(2)] .
  show ?case
  proof (cases "i = n")
    case True
    have "recorded pd cu ps cs rgx n st1"
      using loop_body_recorded[OF b Cons.prems(2)] .
    moreover from run_loop_keeps[OF r] have
      "length (are_regex_results_equal st') = length (are_regex_results_equal st1)"
      "are_regex_results_equal st' ! n = are_regex_results_equal st1 ! n"
      "map_of (results_by_data_point_dict st') (PdRegex n) =
         map_of (results_by_data_point_dict st1) (PdRegex n)"
      "map_of (results_by_data_point_dict st') (CuRegex n) =
         map_of (results_by_data_point_dict st1) (CuRegex n)"
      by simp_all
    ultimately have "recorded pd cu ps cs rgx n st'" by (rule recorded_cong)
    with True show ?thesis by simp
  next
    case False
    with Cons.prems have "Suc n \<le> i" "i < Suc n + length pats" by simp_all
    from Cons.IH[OF r bound1 this]
    have "recorded pd cu ps cs (pats ! (i - Suc n)) i st'" .
    moreover have "(rgx # pats) ! (i - n) = pats ! (i - Suc n)"
      using False Cons.prems(3) by (simp add: nth_Cons')
    ultimately show ?thesis by simp
  qed
qed

lemma run_loop_bound_Inr:
  assumes "pd_matches st \<noteq> None" "\<forall>p\<in>set pats. fst p < length (are_regex_results_equal st)"
  shows "\<exists>st'. run_loop pd cu ps cs pats st = Inr st'"
  using assms
proof (induction pats arbitrary: st)
  case Nil
  then show ?case by simp
next
  case (Cons p pats)
  obtain ii rgx where p: "p = (ii, rgx)" by (cases p)
  from Cons.prems p have "\<not> (isl (pd rgx) \<and> pd_matches st = None)"
    "ii < length (are_regex_results_equal st)" by simp_all
  from loop_body_Inr_ex[where pd = pd and rgx = rgx and st = st and ii = ii, OF this]
  obtain st1 where b: "loop_body pd cu ps cs ii rgx st = Inr st1" by blast
  from loop_body_pd_matches(2)[OF b] have "pd_matches st1 \<noteq> None" .
  moreover have "\<forall>p\<in>set pats. fst p < length (are_regex_results_equal st1)"
    using Cons.prems(2) loop_body_keeps(1)[OF b] by simp
  ultimately show ?case using Cons.IH[of st1] b p by simp
qed

lemma run_loop_Inl:
  assumes "ii < length (are_regex_results_equal st)"
    "\<forall>p\<in>set rest. fst p < length (are_regex_results_equal st)"
  shows "run_loop pd cu ps cs ((ii, rgx) # rest) st = Inl err \<longleftrightarrow>
     (isl (pd rgx) \<and> pd_matches st = None \<and> err = NameError ''pd_matches'')"
proof (cases "loop_body pd cu ps cs ii rgx st")
  case (Inl e)
  then show ?thesis
    using assms(1) loop_body_Inl[of pd cu ps cs ii rgx st e] by (auto split: if_splits)
next
  case (Inr st1)
  from loop_body_pd_matches(2)[OF Inr] have "pd_matches st1 \<noteq> None" .
  moreover have "\<forall>p\<in>set rest. fst p < length (are_regex_results_equal st1)"
    using assms(2) loop_body_keeps(1)[OF Inr] by simp
  ultimately obtain st' where "run_loop pd cu ps cs rest st1 = Inr st'"
    using run_loop_bound_Inr[of st1 rest pd cu ps cs] by blast
  moreover have "\<not> (isl (pd rgx) \<and> pd_matches st = None)"
  proof
    assume "isl (pd rgx) \<and> pd_matches st = None"
    then have "loop_body pd cu ps cs ii rgx st = Inl (NameError ''pd_matches'')"
      by (simp add: loop_body_Inl)
    with Inr show False by simp
  qed
  ultimately show ?thesis using Inr by auto
qed

lemma length_candidates: "length candidate_regexes = 6"
  by (simp add: candidate_regexes_def)

lemma candidates_enum:
  "enumerate 0 candidate_regexes = (0, candidate_regexes ! 0) # enumerate 1 (tl candidate_regexes)"
  by (simp add: candidate_regexes_def)

lemma harness_Inl:
  "harness pd cu tdl = Inl err \<longleftrightarrow>
     (isl (pd (candidate_regexes ! 0)) \<and> err = NameError ''pd_matches'')"
proof -
  define st0 where "st0 =
    \<lparr>pd_matches = None, cu_matches = None,
     results_by_data_point_dict = [(Email, ListV (test_data_to_show tdl))],
     are_regex_results_equal = replicate (length candidate_regexes) (None :: int option),
     stdout = []\<rparr>"
  have h: "harness pd cu tdl =
      run_loop pd cu (dropna (Series tdl)) (dropna (Series tdl))
        ((0, candidate_regexes ! 0) # enumerate 1 (tl candidate_regexes)) st0"
    by (simp add: harness_def Let_def st0_def candidates_enum)
  have a: "0 < length (are_regex_results_equal st0)"
    by (simp add: st0_def length_candidates)
  have b: "\<forall>p\<in>set (enumerate 1 (tl candidate_regexes)).
             fst p < length (are_regex_results_equal st0)"
    by (auto simp: st0_def length_candidates in_set_enumerate_eq)
  show ?thesis unfolding h run_loop_Inl[OF a b] by (simp add: st0_def)
qed

lemma harness_Inr:
  assumes "\<not> isl (pd (candidate_regexes ! 0))"
  shows "harness pd cu tdl = Inr (projr (harness pd cu tdl))"
proof (cases "harness pd cu tdl")
  case (Inl e)
  with assms show ?thesis by (simp add: harness_Inl)
next
  case (Inr st)
  then show ?thesis by simp
qed

lemma harness_recorded:
  assumes "harness pd cu tdl = Inr st" "i < length candidate_regexes"
  shows "recorded pd cu (dropna (Series tdl)) (dropna (Series tdl)) (candidate_regexes ! i) i st"
proof -
  define st0 where "st0 =
    \<lparr>pd_matches = None, cu_matches = None,
     results_by_data_point_dict = [(Email, ListV (test_data_to_show tdl))],
     are_regex_results_equal = replicate (length candidate_regexes) (None :: int option),
     stdout = []\<rparr>"
  have run: "run_loop pd cu (dropna (Series tdl)) (dropna (Series tdl))
               (enumerate 0 candidate_regexes) st0 = Inr st"
    using assms(1) by (simp add: harness_def Let_def st0_def)
  have b: "pd_bound (dropna (Series tdl)) st0" by (simp add: pd_bound_def st0_def)
  from run_loop_recorded[OF run b] assms(2) show ?thesis by simp
qed

lemma harness_email:
  assumes "harness pd cu tdl = Inr st"
  shows "map_of (results_by_data_point_dict st) Email = Some (ListV (test_data_to_show tdl))"
proof -
  define st0 where "st0 =
    \<lparr>pd_matches = None, cu_matches = None,
     results_by_data_point_dict = [(Email, ListV (test_data_to_show tdl))],
     are_regex_results_equal = replicate (length candidate_regexes) (None :: int option),
     stdout = []\<rparr>"
  have run: "run_loop pd cu (dropna (Series tdl)) (dropna (Series tdl))
               (enumerate 0 candidate_regexes) st0 = Inr st"
    using assms by (simp add: harness_def Let_def st0_def)
  from run_loop_keeps[OF run] show ?thesis by (simp add: st0_def)
qed

section \<open>Two runs over the same strings\<close>

lemma update_map_values:
  "map (\<lambda>(k, v). (k, f v)) (AList.update k0 v0 al) =
     AList.update k0 (f v0) (map (\<lambda>(k, v). (k, f v)) al)"
  by (induction al) auto

lemma loop_body_Inl_sim:
  assumes "same_pd ps ps' st st'" "observed st = observed st'"
  shows "(loop_body pd cu ps ps ii rgx st = Inl e) = (loop_body pd cu ps' ps' ii rgx st' = Inl e)"
proof -
  have "(pd_matches st = None) = (pd_matches st' = None)"
    using assms(1) by (auto simp: same_pd_def split: option.splits)
  moreover have "are_regex_results_equal st = are_regex_results_equal st'"
    using assms(2) by (simp add: observed_def)
  ultimately show ?thesis by (simp add: loop_body_Inl)
qed

lemma loop_body_sim:
  assumes v: "vals ps = vals ps'" and s: "same_pd ps ps' st st'" and o: "observed st = observed st'"
    and a: "loop_body pd cu ps ps ii rgx st = Inr st1"
  shows "\<exists>st1'. loop_body pd cu ps' ps' ii rgx st' = Inr st1' \<and>
           same_pd ps ps' st1 st1' \<and> observed st1 = observed st1'"
proof -
  have "\<exists>st1'. loop_body pd cu ps' ps' ii rgx st' = Inr st1'"
  proof (cases "loop_body pd cu ps' ps' ii rgx st'")
    case (Inl e)
    then have "loop_body pd cu ps ps ii rgx st = Inl e"
      using loop_body_Inl_sim[OF s o] by simp
    with a show ?thesis by simp
  next
    case (Inr st1')
    then show ?thesis by blast
  qed
  then obtain st1' where b: "loop_body pd cu ps' ps' ii rgx st' = Inr st1'" ..
  have p1: "pd_matches st1 = (case pd rgx of
              Inr f \<Rightarrow> Some \<lparr>index = index ps, vals = BoolCol (map f (vals ps))\<rparr>
            | Inl e \<Rightarrow> pd_matches st)" "pd_matches st1 \<noteq> None"
    using loop_body_pd_matches[OF a] by simp_all
  have p2: "pd_matches st1' = (case pd rgx of
              Inr f \<Rightarrow> Some \<lparr>index = index ps', vals = BoolCol (map f (vals ps'))\<rparr>
            | Inl e \<Rightarrow> pd_matches st')"
    using loop_body_pd_matches[OF b] by simp
  have same1: "same_pd ps ps' st1 st1'"
    using p1 p2 s v by (cases "pd rgx") (auto simp: same_pd_def split: option.splits)
  from same1 p1(2) obtain bs where
    pm: "pd_matches st1 = Some \<lparr>index = index ps, vals = BoolCol bs\<rparr>" and
    pm': "pd_matches st1' = Some \<lparr>index = index ps', vals = BoolCol bs\<rparr>"
    by (auto simp: same_pd_def split: option.splits)
  note r1 = loop_body_results[OF a pm]
  note r2 = loop_body_results[OF b pm']
  from o have o':
    "map (\<lambda>(k, v). (k, drop_labels v)) (results_by_data_point_dict st) =
     map (\<lambda>(k, v). (k, drop_labels v)) (results_by_data_point_dict st')"
    "are_regex_results_equal st = are_regex_results_equal st'" "stdout st = stdout st'"
    by (simp_all add: observed_def)
  have vc: "vals (cu_outcome cu ps rgx \<lparr>index = index ps, vals = BoolCol bs\<rparr>) =
            vals (cu_outcome cu ps' rgx \<lparr>index = index ps', vals = BoolCol bs\<rparr>)"
    by (simp add: cu_outcome_vals v split: sum.splits)
  have eq: "equals \<lparr>index = index ps, vals = BoolCol bs\<rparr>
              (cu_outcome cu ps rgx \<lparr>index = index ps, vals = BoolCol bs\<rparr>) =
            equals \<lparr>index = index ps', vals = BoolCol bs\<rparr>
              (cu_outcome cu ps' rgx \<lparr>index = index ps', vals = BoolCol bs\<rparr>)"
    by (simp add: equals_labels v split: sum.splits)
  have d: "map (\<lambda>(k, v). (k, drop_labels v)) (results_by_data_point_dict st1) =
           map (\<lambda>(k, v). (k, drop_labels v)) (results_by_data_point_dict st1')"
    unfolding r1(2) r2(2) update_map_values o'(1) by (simp add: vc)
  have f: "are_regex_results_equal st1 = are_regex_results_equal st1'"
    unfolding r1(3) r2(3) o'(2) eq ..
  have p: "stdout st1 = stdout st1'"
    unfolding loop_body_stdout[OF a] loop_body_stdout[OF b] o'(3) ..
  have "observed st1 = observed st1'"
    unfolding observed_def using d f p by simp
  with b same1 show ?thesis by blast
qed

lemma run_loop_sim:
  assumes "vals ps = vals ps'" "same_pd ps ps' st st'" "observed st = observed st'"
  shows "map_sum id observed (run_loop pd cu ps ps pats st) =
         map_sum id observed (run_loop pd cu ps' ps' pats st')"
  using assms(2,3)
proof (induction pats arbitrary: st st')
  case Nil
  then show ?case by simp
next
  case (Cons p pats)
  obtain ii rgx where p: "p = (ii, rgx)" by (cases p)
  show ?case
  proof (cases "loop_body pd cu ps ps ii rgx st")
    case (Inl e)
    then have "loop_body pd cu ps' ps' ii rgx st' = Inl e"
      using loop_body_Inl_sim[OF Cons.prems] by simp
    with Inl p show ?thesis by simp
  next
    case (Inr st1)
    from loop_body_sim[OF assms(1) Cons.prems(1) Cons.prems(2) Inr] obtain st1' where
      "loop_body pd cu ps' ps' ii rgx st' = Inr st1'" "same_pd ps ps' st1 st1'"
      "observed st1 = observed st1'" by blast
    with Cons.IH[of st1 st1'] Inr p show ?thesis by simp
  qed
qed

lemma map_filter_zip_vals:
  "length ix = length xs \<Longrightarrow>
   map snd (List.map_filter (\<lambda>(i, v). case v of NaN \<Rightarrow> None | Str t \<Rightarrow> Some (i, t)) (zip ix xs)) =
   List.map_filter (\<lambda>v. case v of NaN \<Rightarrow> None | Str t \<Rightarrow> Some t) xs"
  by (induction ix xs rule: list_induct2) (auto split: datum.splits)

lemma dropna_vals:
  "vals (dropna (Series tdl)) =
     List.map_filter (\<lambda>v. case v of NaN \<Rightarrow> None | Str t \<Rightarrow> Some t) tdl"
  by (simp add: dropna_def Series_def Let_def map_filter_zip_vals)

lemma dropna_remove_nan: "vals (dropna (Series (remove_nan tdl))) = vals (dropna (Series tdl))"
  unfolding dropna_vals remove_nan_def
  by (induction tdl) (auto split: datum.splits)

lemma show_remove_nan: "test_data_to_show (remove_nan tdl) = test_data_to_show tdl"
  unfolding test_data_to_show_def remove_nan_def
  by (induction tdl) auto

lemma harness_remove_nan:
  "map_sum id observed (harness pd cu (remove_nan tdl)) = map_sum id observed (harness pd cu tdl)"
  unfolding harness_def Let_def
  by (rule run_loop_sim)
     (simp_all add: dropna_remove_nan same_pd_def observed_def show_remove_nan)

section \<open>The literal data\<close>

lemma retained_eq:
  "retained =
    [''john.smith@example.com'', ''team@domain.com'', ''junk@example.com'',
     ''hithere@whatsup.yo'', ''hi-there@whatsup.yo'', ''hithere@whats-up.yo'',
     ''hi-there@whats-up.yo'', ''hi.there@whatsup.yo'', ''hithere@whats.up.yo'',
     ''hi.there@whats.up.yo'', ''hi_there@whats.up.yo'', ''hi_there@whats_up.yo'']"
  unfolding retained_def dropna_vals test_data_list_def by (simp add: List.map_filter_simps)

lemma length_retained: "length retained = 12"
  by (simp add: retained_eq)

lemma dropna_index:
  "index (dropna (Series test_data_list)) = [0, 2, 3, 4, 5, 6, 7, 8, 9, 10, 11, 12]"
  by (simp add: dropna_def Series_def test_data_list_def Let_def List.map_filter_simps upt_rec)

section \<open>The matcher on the candidate patterns\<close>




lemma regex_engine_0: "\<not> isl (regex_engine (candidate_regexes ! 0))"
  by code_simp

lemma regex_engine_1: "\<not> isl (regex_engine (candidate_regexes ! 1))"
  by code_simp

lemma compile_0_1: "compile (candidate_regexes ! 1) = compile (candidate_regexes ! 0)"
  by code_simp

lemma results_0:
  "map (regex_match (candidate_regexes ! 0)) retained =
     map Inr [True, True, True, True, True, True, True, True, True, True, True, False]"
  by code_simp

lemma hi_there_0: "regex_match (candidate_regexes ! 0) ''hi-there@whatsup.yo'' = Inr True"
  by code_simp

lemma both_hyphens_0: "regex_match (candidate_regexes ! 0) ''hi-there@whats-up.yo'' = Inr True"
  by code_simp

lemma underscore_host_0: "regex_match (candidate_regexes ! 0) ''hi_there@whats_up.yo'' = Inr False"
  by code_simp

lemma underscore_tail_0: "regex_match (candidate_regexes ! 0) ''hi_there@whats.up.yo'' = Inr True"
  by code_simp

lemma host_scan_0: "scan_class ''a-zA-Z0-9-'' = Inr (alnum @ [Lit CHR ''-''])"
  by code_simp

lemma low_endpoints_absorbed:
  "class_accepts (alnum @ xs) =
   class_accepts (Range CHR ''a'' CHR ''z'' # Range CHR ''A'' CHR ''Z'' #
                  Range CHR ''0'' CHR ''9'' # xs)"
  by (auto simp: class_accepts_def alnum_def fun_eq_iff)

lemma host_class_0:
  "class_of ''a-zA-Z0-9-'' =
     Inr (class_accepts
       [Range CHR ''a'' CHR ''z'', Range CHR ''A'' CHR ''Z'', Range CHR ''0'' CHR ''9'',
        Lit CHR ''-''])"
  unfolding class_of_def host_scan_0 by (simp add: low_endpoints_absorbed)

lemma host_class_0_underscore:
  "\<not> class_accepts
     [Range CHR ''a'' CHR ''z'', Range CHR ''A'' CHR ''Z'', Range CHR ''0'' CHR ''9'',
      Lit CHR ''-''] CHR ''_''"
  by code_simp












section \<open>What a later pattern depends on\<close>

text \<open>
  The series recorded for the first engine under pattern \<open>i\<close> is the result of the last
  pattern up to \<open>i\<close> that the first engine evaluated. What is recorded for a pattern
  depends on the second engine only through its behaviour on that very pattern, so a failure
  of the second engine on one pattern changes nothing for another.
\<close>

lemma run_loop_pd_recorded:
  assumes "run_loop pd cu ps cs (enumerate n pats) st = Inr st'" "n \<le> i" "i < n + length pats"
  shows "map_of (results_by_data_point_dict st') (PdRegex i) =
           map_option SeriesV (pd_after pd ps (take (Suc (i - n)) pats) (pd_matches st))"
  using assms
proof (induction pats arbitrary: n st)
  case Nil
  then show ?case by simp
next
  case (Cons rgx pats)
  from Cons.prems(1) obtain st1 where
    b: "loop_body pd cu ps cs n rgx st = Inr st1" and
    r: "run_loop pd cu ps cs (enumerate (Suc n) pats) st1 = Inr st'"
    by (auto split: sum.splits)
  note step = loop_body_pd_matches(1)[OF b]
  show ?case
  proof (cases "i = n")
    case True
    from loop_body_pd_matches(2)[OF b] obtain pm where pm: "pd_matches st1 = Some pm" by blast
    have "map_of (results_by_data_point_dict st1) (PdRegex n) = Some (SeriesV pm)"
      using loop_body_results(2)[OF b pm] by (simp add: update_conv')
    moreover have "map_of (results_by_data_point_dict st') (PdRegex n) =
                   map_of (results_by_data_point_dict st1) (PdRegex n)"
      using run_loop_keeps[OF r] by simp
    ultimately show ?thesis using True pm step by simp
  next
    case False
    with Cons.prems have "Suc n \<le> i" "i < Suc n + length pats" by simp_all
    from Cons.IH[OF r this]
    have "map_of (results_by_data_point_dict st') (PdRegex i) =
            map_option SeriesV (pd_after pd ps (take (Suc (i - Suc n)) pats) (pd_matches st1))" .
    moreover have "Suc (i - n) = Suc (Suc (i - Suc n))" using False Cons.prems(2) by simp
    ultimately show ?thesis using step by simp
  qed
qed

lemma harness_pd_recorded:
  assumes "harness pd cu tdl = Inr st" "i < length candidate_regexes"
  shows "map_of (results_by_data_point_dict st) (PdRegex i) =
           map_option SeriesV
             (pd_after pd (dropna (Series tdl)) (take (Suc i) candidate_regexes) None)"
proof -
  define st0 where "st0 =
    \<lparr>pd_matches = None, cu_matches = None,
     results_by_data_point_dict = [(Email, ListV (test_data_to_show tdl))],
     are_regex_results_equal = replicate (length candidate_regexes) (None :: int option),
     stdout = []\<rparr>"
  have run: "run_loop pd cu (dropna (Series tdl)) (dropna (Series tdl))
               (enumerate 0 candidate_regexes) st0 = Inr st"
    using assms(1) by (simp add: harness_def Let_def st0_def)
  from run_loop_pd_recorded[OF run] assms(2) show ?thesis by (simp add: st0_def)
qed

lemma harness_isl: "isl (harness pd cu tdl) = isl (pd (candidate_regexes ! 0))"
proof (cases "harness pd cu tdl")
  case (Inl e)
  then have "isl (pd (candidate_regexes ! 0))" by (simp add: harness_Inl)
  with Inl show ?thesis by simp
next
  case (Inr st)
  have "\<not> isl (pd (candidate_regexes ! 0))"
  proof
    assume "isl (pd (candidate_regexes ! 0))"
    then have "harness pd cu tdl = Inl (NameError ''pd_matches'')" by (simp add: harness_Inl)
    with Inr show False by simp
  qed
  with Inr show ?thesis by simp
qed

lemma second_engine_failure_isolated:
  assumes "cu' (candidate_regexes ! j) = cu (candidate_regexes ! j)" "j < length candidate_regexes"
  shows "isl (harness pd cu' tdl) = isl (harness pd cu tdl)"
    and "harness pd cu tdl = Inr st \<Longrightarrow> harness pd cu' tdl = Inr st' \<Longrightarrow>
           map_of (results_by_data_point_dict st') (PdRegex j) =
             map_of (results_by_data_point_dict st) (PdRegex j) \<and>
           map_of (results_by_data_point_dict st') (CuRegex j) =
             map_of (results_by_data_point_dict st) (CuRegex j) \<and>
           do_pandas_and_cudf_match st' ! j = do_pandas_and_cudf_match st ! j"
proof -
  show "isl (harness pd cu' tdl) = isl (harness pd cu tdl)"
    by (simp add: harness_isl)
next
  assume a: "harness pd cu tdl = Inr st" and b: "harness pd cu' tdl = Inr st'"
  let ?ps = "dropna (Series tdl)"
  let ?rgx = "candidate_regexes ! j"
  from harness_recorded[OF a assms(2)] obtain pm where
    r: "map_of (results_by_data_point_dict st) (PdRegex j) = Some (SeriesV pm)"
      "map_of (results_by_data_point_dict st) (CuRegex j) =
         Some (ArrayV (vals (cu_outcome cu ?ps ?rgx pm)))"
      "j < length (are_regex_results_equal st)"
      "are_regex_results_equal st ! j = Some (of_bool (equals pm (cu_outcome cu ?ps ?rgx pm)))"
    unfolding recorded_def by blast
  from harness_recorded[OF b assms(2)] obtain pm' where
    r': "map_of (results_by_data_point_dict st') (PdRegex j) = Some (SeriesV pm')"
      "map_of (results_by_data_point_dict st') (CuRegex j) =
         Some (ArrayV (vals (cu_outcome cu' ?ps ?rgx pm')))"
      "j < length (are_regex_results_equal st')"
      "are_regex_results_equal st' ! j = Some (of_bool (equals pm' (cu_outcome cu' ?ps ?rgx pm')))"
    unfolding recorded_def by blast
  have "map_of (results_by_data_point_dict st') (PdRegex j) =
        map_of (results_by_data_point_dict st) (PdRegex j)"
    using harness_pd_recorded[OF a assms(2)] harness_pd_recorded[OF b assms(2)] by simp
  with r(1) r'(1) have pm: "pm' = pm" by simp
  have out: "cu_outcome cu' ?ps ?rgx pm = cu_outcome cu ?ps ?rgx pm"
    using assms(1) by (simp add: cu_outcome_def)
  show "map_of (results_by_data_point_dict st') (PdRegex j) =
             map_of (results_by_data_point_dict st) (PdRegex j) \<and>
           map_of (results_by_data_point_dict st') (CuRegex j) =
             map_of (results_by_data_point_dict st) (CuRegex j) \<and>
           do_pandas_and_cudf_match st' ! j = do_pandas_and_cudf_match st ! j"
    using r r' by (simp add: pm out do_pandas_and_cudf_match_def)
qed

lemma harness_flag:
  assumes "harness pd cu tdl = Inr st" "i < length candidate_regexes"
    "pd (candidate_regexes ! i) = Inr f"
  shows "do_pandas_and_cudf_match st ! i =
           Some (case cu (candidate_regexes ! i) of
                   Inr g \<Rightarrow> map f (vals (dropna (Series tdl))) = map g (vals (dropna (Series tdl)))
                 | Inl e \<Rightarrow> False)"
proof -
  from harness_recorded[OF assms(1,2)] obtain pm bs where
    r: "i < length (are_regex_results_equal st)"
      "are_regex_results_equal st ! i =
         Some (of_bool (equals pm
           (cu_outcome cu (dropna (Series tdl)) (candidate_regexes ! i) pm)))"
      "pm = \<lparr>index = index (dropna (Series tdl)), vals = BoolCol bs\<rparr>"
      "\<forall>f. pd (candidate_regexes ! i) = Inr f \<longrightarrow> bs = map f (vals (dropna (Series tdl)))"
    unfolding recorded_def by blast
  from r(4) assms(3) have "bs = map f (vals (dropna (Series tdl)))" by simp
  with r(1,2) show ?thesis
    unfolding r(3) equals_labels
    by (simp add: do_pandas_and_cudf_match_def split: sum.splits)
qed

section \<open>The claims\<close>

text \<open>
  C1. On every retained test string the hyphen-last pattern (candidate 0) and the
  escaped-hyphen pattern (candidate 1) give the same boolean result, and for
  \<open>hi-there@whatsup.yo\<close> that result is a match under both. The two patterns give the
  same result on every string, not only on the retained ones.
\<close>

theorem hyphen_last_equals_escaped_hyphen:
  "map (regex_match (candidate_regexes ! 0)) retained =
     map Inr [True, True, True, True, True, True, True, True, True, True, True, False] \<and>
   map (regex_match (candidate_regexes ! 1)) retained =
     map (regex_match (candidate_regexes ! 0)) retained \<and>
   (\<forall>s. regex_match (candidate_regexes ! 1) s = regex_match (candidate_regexes ! 0) s) \<and>
   regex_match (candidate_regexes ! 0) ''hi-there@whatsup.yo'' = Inr True \<and>
   regex_match (candidate_regexes ! 1) ''hi-there@whatsup.yo'' = Inr True"
proof -
  have eq: "regex_match (candidate_regexes ! 1) s = regex_match (candidate_regexes ! 0) s" for s
    unfolding regex_match_def compile_0_1 ..
  show ?thesis unfolding eq using results_0 hi_there_0 by blast
qed

text \<open>
  C2, as stated, fails: candidate 0 does not match \<open>hi_there@whats_up.yo\<close>, so the two
  test strings do not both match.
\<close>

theorem underscore_host_counterexample:
  "\<not> (regex_match (candidate_regexes ! 0) ''hi-there@whats-up.yo'' = Inr True \<and>
      regex_match (candidate_regexes ! 0) ''hi_there@whats_up.yo'' = Inr True)"
  by (simp add: underscore_host_0)

text \<open>
  C2, amended. Candidate 0 matches \<open>hi-there@whats-up.yo\<close> and does not match
  \<open>hi_there@whats_up.yo\<close>: the host class \<open>[a-zA-Z0-9-]\<close> has no underscore. An
  underscore in the local part alone is accepted, as in \<open>hi_there@whats.up.yo\<close>.
\<close>

theorem hyphen_matches_underscore_host_does_not:
  "regex_match (candidate_regexes ! 0) ''hi-there@whats-up.yo'' = Inr True \<and>
   regex_match (candidate_regexes ! 0) ''hi_there@whats_up.yo'' = Inr False \<and>
   regex_match (candidate_regexes ! 0) ''hi_there@whats.up.yo'' = Inr True \<and>
   class_of ''a-zA-Z0-9-'' = Inr (class_accepts
     [Range CHR ''a'' CHR ''z'', Range CHR ''A'' CHR ''Z'', Range CHR ''0'' CHR ''9'',
      Lit CHR ''-'']) \<and>
   \<not> class_accepts
     [Range CHR ''a'' CHR ''z'', Range CHR ''A'' CHR ''Z'', Range CHR ''0'' CHR ''9'',
      Lit CHR ''-''] CHR ''_''"
  using both_hyphens_0 underscore_host_0 underscore_tail_0 host_class_0 host_class_0_underscore
  by blast



text \<open>
  C4, as stated, fails: when both engines fail on the first pattern, the second engine's
  handler reads \<open>pd_matches.size\<close> while \<open>pd_matches\<close> is unbound, and the run ends with
  \<open>NameError\<close>; no sentinel row and no agreement flag is recorded.
\<close>

theorem sentinel_counterexample:
  "failing_engine (candidate_regexes ! 0) = Inl (Exn ''regex error'') \<and>
   harness failing_engine failing_engine test_data_list = Inl (NameError ''pd_matches'')"
  by (simp add: harness_Inl failing_engine_def)

text \<open>
  C4, amended. In every run that reaches the end of the loop (the first engine's result is
  bound, as the handler's comment presumes), for every pattern on which the second engine
  fails the column recorded for the second engine holds the sentinel \<open>-1\<close> in every row,
  one row per retained string; the sentinel series is not equal to the boolean series
  recorded for the first engine, and the agreement flag of that pattern is false.
\<close>

theorem sentinel_substituted:
  assumes "harness pd cu tdl = Inr st" "i < length candidate_regexes"
    "cu (candidate_regexes ! i) = Inl e"
  shows "map_of (results_by_data_point_dict st) (CuRegex i) =
           Some (ArrayV (Float64Col
             (replicate (length (vals (dropna (Series tdl)))) err_match_value))) \<and>
         (\<exists>pm bs. map_of (results_by_data_point_dict st) (PdRegex i) = Some (SeriesV pm) \<and>
            vals pm = BoolCol bs \<and>
            length bs = length (vals (dropna (Series tdl))) \<and>
            \<not> equals pm (cu_error_matches (length bs))) \<and>
         do_pandas_and_cudf_match st ! i = Some False"
proof -
  from harness_recorded[OF assms(1,2)] obtain pm bs where
    r: "map_of (results_by_data_point_dict st) (PdRegex i) = Some (SeriesV pm)"
      "map_of (results_by_data_point_dict st) (CuRegex i) =
         Some (ArrayV (vals (cu_outcome cu (dropna (Series tdl)) (candidate_regexes ! i) pm)))"
      "i < length (are_regex_results_equal st)"
      "are_regex_results_equal st ! i =
         Some (of_bool (equals pm (cu_outcome cu (dropna (Series tdl)) (candidate_regexes ! i) pm)))"
      "pm = \<lparr>index = index (dropna (Series tdl)), vals = BoolCol bs\<rparr>"
      "length bs = length (vals (dropna (Series tdl)))"
    unfolding recorded_def by blast
  have out: "cu_outcome cu (dropna (Series tdl)) (candidate_regexes ! i) pm =
             cu_error_matches (length bs)"
    using assms(3) r(5) by (simp add: cu_outcome_def)
  have ne: "\<not> equals pm (cu_error_matches (length bs))"
    using r(5) by (simp add: equals_def cu_error_matches_def)
  have "do_pandas_and_cudf_match st ! i = Some False"
    using r(3,4) ne by (simp add: do_pandas_and_cudf_match_def out)
  moreover have "map_of (results_by_data_point_dict st) (CuRegex i) =
           Some (ArrayV (Float64Col
             (replicate (length (vals (dropna (Series tdl)))) err_match_value)))"
    using r(2) r(6) by (simp add: out cu_error_matches_def)
  ultimately show ?thesis using r(1,5,6) ne by auto
qed

theorem sentinel_substituted_witness:
  "harness regex_engine failing_engine test_data_list =
     Inr (projr (harness regex_engine failing_engine test_data_list)) \<and>
   (0::nat) < length candidate_regexes \<and>
   failing_engine (candidate_regexes ! 0) = Inl (Exn ''regex error'') \<and>
   map_of (results_by_data_point_dict (projr (harness regex_engine failing_engine test_data_list)))
     (CuRegex 0) = Some (ArrayV (Float64Col (replicate 12 (-1)))) \<and>
   do_pandas_and_cudf_match (projr (harness regex_engine failing_engine test_data_list)) ! 0 =
     Some False"
proof -
  have h1: "harness regex_engine failing_engine test_data_list =
     Inr (projr (harness regex_engine failing_engine test_data_list))"
    by (rule harness_Inr) (rule regex_engine_0)
  have h2: "(0::nat) < length candidate_regexes" by (simp add: length_candidates)
  have h3: "failing_engine (candidate_regexes ! 0) = Inl (Exn ''regex error'')"
    by (simp add: failing_engine_def)
  from sentinel_substituted[OF h1 h2 h3] h1 h2 h3 show ?thesis
    using length_retained by (simp add: retained_def err_match_value_def)
qed

text \<open>
  C5 fails on the code. With a first engine that fails on pattern 1 only and a second engine
  that evaluates every pattern, the run reaches the end of the loop and the agreement flag
  of pattern 1 is true, although the first engine has no result for pattern 1: what is
  recorded and compared under pattern 1 is the series left over from pattern 0. Where the
  first engine evaluates the pattern, the flag is the equality of the two engines' results
  on the retained strings and is false when the second engine fails (lemma
  \<open>harness_flag\<close>).
\<close>

theorem flag_true_for_unevaluated_pattern:
  "fail_on [candidate_regexes ! 1] regex_engine (candidate_regexes ! 1) =
     Inl (Exn ''regex error'') \<and>
   harness (fail_on [candidate_regexes ! 1] regex_engine) regex_engine test_data_list =
     Inr (projr (harness (fail_on [candidate_regexes ! 1] regex_engine) regex_engine
            test_data_list)) \<and>
   do_pandas_and_cudf_match
     (projr (harness (fail_on [candidate_regexes ! 1] regex_engine) regex_engine
        test_data_list)) ! 1 = Some True \<and>
   map_of (results_by_data_point_dict
     (projr (harness (fail_on [candidate_regexes ! 1] regex_engine) regex_engine
        test_data_list))) (PdRegex 1) =
   map_of (results_by_data_point_dict
     (projr (harness (fail_on [candidate_regexes ! 1] regex_engine) regex_engine
        test_data_list))) (PdRegex 0)"
proof -
  let ?pd = "fail_on [candidate_regexes ! 1] regex_engine"
  let ?ps = "dropna (Series test_data_list)"
  define st where "st = projr (harness ?pd regex_engine test_data_list)"
  define f where "f = projr (regex_engine (candidate_regexes ! 0))"
  have e0: "regex_engine (candidate_regexes ! 0) = Inr f"
    using regex_engine_0 by (simp add: f_def)
  have e1: "regex_engine (candidate_regexes ! 1) = Inr f"
    unfolding regex_engine_def compile_0_1 using e0 by (simp add: regex_engine_def)
  have ne: "candidate_regexes ! 0 \<noteq> candidate_regexes ! 1"
    by (simp add: candidate_regexes_def escape_marker_def)
  have p0: "?pd (candidate_regexes ! 0) = Inr f"
    using ne e0 by (simp add: fail_on_def)
  have p1: "?pd (candidate_regexes ! 1) = Inl (Exn ''regex error'')"
    by (simp add: fail_on_def)
  have run: "harness ?pd regex_engine test_data_list = Inr st"
    unfolding st_def by (rule harness_Inr) (simp only: p0 sum.disc not_False_eq_True)
  have l0: "0 < length candidate_regexes" and l1: "1 < length candidate_regexes"
    by (simp_all add: length_candidates)
  have t0: "take (Suc 0) candidate_regexes = [candidate_regexes ! 0]"
    and t1: "take (Suc 1) candidate_regexes = [candidate_regexes ! 0, candidate_regexes ! 1]"
    by (simp_all add: candidate_regexes_def)
  have d0: "map_of (results_by_data_point_dict st) (PdRegex 0) =
              Some (SeriesV \<lparr>index = index ?ps, vals = BoolCol (map f (vals ?ps))\<rparr>)"
    using harness_pd_recorded[OF run l0] unfolding t0 pd_after.simps p0 by simp
  have d1: "map_of (results_by_data_point_dict st) (PdRegex 1) =
              Some (SeriesV \<lparr>index = index ?ps, vals = BoolCol (map f (vals ?ps))\<rparr>)"
    using harness_pd_recorded[OF run l1] unfolding t1 pd_after.simps p0 p1 by simp
  from harness_recorded[OF run l1] obtain pm where
    r: "map_of (results_by_data_point_dict st) (PdRegex 1) = Some (SeriesV pm)"
      "1 < length (are_regex_results_equal st)"
      "are_regex_results_equal st ! 1 =
         Some (of_bool (equals pm (cu_outcome regex_engine ?ps (candidate_regexes ! 1) pm)))"
    unfolding recorded_def by blast
  from r(1) d1 have pm: "pm = \<lparr>index = index ?ps, vals = BoolCol (map f (vals ?ps))\<rparr>"
    by simp
  have "equals pm (cu_outcome regex_engine ?ps (candidate_regexes ! 1) pm)"
    unfolding pm equals_labels e1 by simp
  with r(2,3) have fl: "do_pandas_and_cudf_match st ! 1 = Some True"
    by (simp add: do_pandas_and_cudf_match_def)
  from p1 run fl d0 d1 show ?thesis unfolding st_def by simp
qed

text \<open>
  C6. When the first engine fails on a pattern, the first \<open>try\<close> only prints its message:
  no variable changes, so \<open>pd_matches\<close> keeps whatever an earlier pattern left in it. The
  iteration then records and compares that left-over series under the current pattern's
  key, or ends with \<open>NameError\<close> when \<open>pd_matches\<close> was never bound.
\<close>

theorem pandas_failure_only_logs:
  assumes "pd my_rgx = Inl e" "ii < length (are_regex_results_equal st)"
  shows "try_pandas pd ps my_rgx st = st\<lparr>stdout := stdout st @ [''Error running pandas series.'']\<rparr> \<and>
         (case pd_matches st of
            None \<Rightarrow> loop_body pd cu ps cs ii my_rgx st = Inl (NameError ''pd_matches'')
          | Some pm \<Rightarrow>
              \<exists>st'. loop_body pd cu ps cs ii my_rgx st = Inr st' \<and>
                pd_matches st' = Some pm \<and>
                results_by_data_point_dict st' =
                  AList.update (CuRegex ii) (ArrayV (vals (cu_outcome cu cs my_rgx pm)))
                    (AList.update (PdRegex ii) (SeriesV pm) (results_by_data_point_dict st)) \<and>
                are_regex_results_equal st' =
                  (are_regex_results_equal st)
                    [ii := Some (of_bool (equals pm (cu_outcome cu cs my_rgx pm)))])"
proof -
  have t: "try_pandas pd ps my_rgx st = st\<lparr>stdout := stdout st @ [''Error running pandas series.'']\<rparr>"
    using assms(1) by (simp add: try_pandas_def str_match_def)
  have "case pd_matches st of
            None \<Rightarrow> loop_body pd cu ps cs ii my_rgx st = Inl (NameError ''pd_matches'')
          | Some pm \<Rightarrow>
              \<exists>st'. loop_body pd cu ps cs ii my_rgx st = Inr st' \<and>
                pd_matches st' = Some pm \<and>
                results_by_data_point_dict st' =
                  AList.update (CuRegex ii) (ArrayV (vals (cu_outcome cu cs my_rgx pm)))
                    (AList.update (PdRegex ii) (SeriesV pm) (results_by_data_point_dict st)) \<and>
                are_regex_results_equal st' =
                  (are_regex_results_equal st)
                    [ii := Some (of_bool (equals pm (cu_outcome cu cs my_rgx pm)))]"
  proof (cases "pd_matches st")
    case None
    with assms(1) show ?thesis by (simp add: loop_body_Inl)
  next
    case (Some pm)
    then have "\<not> (isl (pd my_rgx) \<and> pd_matches st = None)" by simp
    from loop_body_Inr_ex[where pd = pd and rgx = my_rgx and st = st and ii = ii,
        OF this assms(2)]
    obtain st' where b: "loop_body pd cu ps cs ii my_rgx st = Inr st'" by blast
    from loop_body_pd_matches(1)[OF b] assms(1) Some have p: "pd_matches st' = Some pm" by simp
    from loop_body_results(2,3)[OF b p] b p Some show ?thesis by simp
  qed
  with t show ?thesis by blast
qed

theorem pandas_failure_only_logs_witness:
  "failing_engine (candidate_regexes ! 1) = Inl (Exn ''regex error'') \<and>
   (1::nat) < length [None :: int option, None] \<and>
   loop_body failing_engine failing_engine (dropna (Series test_data_list))
     (dropna (Series test_data_list)) 1 (candidate_regexes ! 1)
     \<lparr>pd_matches = None, cu_matches = None, results_by_data_point_dict = [],
      are_regex_results_equal = [None, None], stdout = []\<rparr> = Inl (NameError ''pd_matches'') \<and>
   map_of (results_by_data_point_dict (projr
     (loop_body failing_engine failing_engine (dropna (Series test_data_list))
       (dropna (Series test_data_list)) 1 (candidate_regexes ! 1)
       \<lparr>pd_matches = Some \<lparr>index = [0], vals = BoolCol [True]\<rparr>, cu_matches = None,
        results_by_data_point_dict = [], are_regex_results_equal = [None, None],
        stdout = []\<rparr>))) (PdRegex 1) = Some (SeriesV \<lparr>index = [0], vals = BoolCol [True]\<rparr>)"
proof -
  have h: "failing_engine (candidate_regexes ! 1) = Inl (Exn ''regex error'')"
    by (simp add: failing_engine_def)
  note t = pandas_failure_only_logs[where pd = failing_engine and cu = failing_engine
      and my_rgx = "candidate_regexes ! 1" and e = "Exn ''regex error''"
      and ps = "dropna (Series test_data_list)" and cs = "dropna (Series test_data_list)"
      and ii = 1, OF h]
  from t[where st = "\<lparr>pd_matches = None, cu_matches = None, results_by_data_point_dict = [],
        are_regex_results_equal = [None, None], stdout = []\<rparr>"]
    t[where st = "\<lparr>pd_matches = Some \<lparr>index = [0], vals = BoolCol [True]\<rparr>, cu_matches = None,
        results_by_data_point_dict = [], are_regex_results_equal = [None, None],
        stdout = []\<rparr>"]
    h
  show ?thesis by (auto simp: update_conv')
qed

text \<open>
  C7 fails on the code. A failure of the first engine on the first pattern ends the whole
  run with \<open>NameError\<close>, so nothing is recorded for any later pattern, while the same run
  without that failure records agreement for pattern 1. A failure of the first engine on a
  later pattern changes what is recorded further on: with the first engine failing on
  patterns 1 and 2, the column and flag of pattern 2 come from pattern 0; with the failure
  on pattern 1 removed, they come from pattern 1 and differ.
\<close>

theorem first_engine_failure_not_isolated:
  "harness (fail_on [candidate_regexes ! 0] regex_engine) regex_engine test_data_list =
     Inl (NameError ''pd_matches'') \<and>
   harness regex_engine regex_engine test_data_list =
     Inr (projr (harness regex_engine regex_engine test_data_list)) \<and>
   do_pandas_and_cudf_match (projr (harness regex_engine regex_engine test_data_list)) ! 1 =
     Some True \<and>
   map_of (results_by_data_point_dict (projr (harness
       (fail_on [candidate_regexes ! 1, candidate_regexes ! 2] (accept_on [candidate_regexes ! 0]))
       (accept_on []) test_data_list))) (PdRegex 2) =
     Some (SeriesV \<lparr>index = [0, 2, 3, 4, 5, 6, 7, 8, 9, 10, 11, 12],
                    vals = BoolCol (replicate 12 True)\<rparr>) \<and>
   map_of (results_by_data_point_dict (projr (harness
       (fail_on [candidate_regexes ! 2] (accept_on [candidate_regexes ! 0]))
       (accept_on []) test_data_list))) (PdRegex 2) =
     Some (SeriesV \<lparr>index = [0, 2, 3, 4, 5, 6, 7, 8, 9, 10, 11, 12],
                    vals = BoolCol (replicate 12 False)\<rparr>) \<and>
   do_pandas_and_cudf_match (projr (harness
       (fail_on [candidate_regexes ! 1, candidate_regexes ! 2] (accept_on [candidate_regexes ! 0]))
       (accept_on []) test_data_list)) ! 2 = Some False \<and>
   do_pandas_and_cudf_match (projr (harness
       (fail_on [candidate_regexes ! 2] (accept_on [candidate_regexes ! 0]))
       (accept_on []) test_data_list)) ! 2 = Some True"
proof -
  have a: "harness (fail_on [candidate_regexes ! 0] regex_engine) regex_engine test_data_list =
     Inl (NameError ''pd_matches'')"
    by (simp add: harness_Inl fail_on_def)
  have b: "harness regex_engine regex_engine test_data_list =
     Inr (projr (harness regex_engine regex_engine test_data_list))"
    by (rule harness_Inr) (rule regex_engine_1 regex_engine_0)
  define f where "f = projr (regex_engine (candidate_regexes ! 1))"
  have e: "regex_engine (candidate_regexes ! 1) = Inr f"
    using regex_engine_1 by (simp add: f_def)
  have l: "1 < length candidate_regexes" by (simp add: length_candidates)
  have c: "do_pandas_and_cudf_match (projr (harness regex_engine regex_engine test_data_list)) ! 1 =
     Some True"
    using harness_flag[OF b l e] unfolding e by simp
  have d1: "map_of (results_by_data_point_dict (projr (harness
       (fail_on [candidate_regexes ! 1, candidate_regexes ! 2] (accept_on [candidate_regexes ! 0]))
       (accept_on []) test_data_list))) (PdRegex 2) =
     Some (SeriesV \<lparr>index = [0, 2, 3, 4, 5, 6, 7, 8, 9, 10, 11, 12],
                    vals = BoolCol (replicate 12 True)\<rparr>)"
    by code_simp
  have d2: "map_of (results_by_data_point_dict (projr (harness
       (fail_on [candidate_regexes ! 2] (accept_on [candidate_regexes ! 0]))
       (accept_on []) test_data_list))) (PdRegex 2) =
     Some (SeriesV \<lparr>index = [0, 2, 3, 4, 5, 6, 7, 8, 9, 10, 11, 12],
                    vals = BoolCol (replicate 12 False)\<rparr>)"
    by code_simp
  have d3: "do_pandas_and_cudf_match (projr (harness
       (fail_on [candidate_regexes ! 1, candidate_regexes ! 2] (accept_on [candidate_regexes ! 0]))
       (accept_on []) test_data_list)) ! 2 = Some False"
    by code_simp
  have d4: "do_pandas_and_cudf_match (projr (harness
       (fail_on [candidate_regexes ! 2] (accept_on [candidate_regexes ! 0]))
       (accept_on []) test_data_list)) ! 2 = Some True"
    by code_simp
  from a b c d1 d2 d3 d4 show ?thesis by blast
qed

text \<open>
  C8. The literal list has thirteen entries, exactly one of them the missing value.
  \<open>dropna\<close> keeps the twelve strings with their row labels, the display list is the same
  twelve strings, and in every run that reaches the end of the loop both columns recorded
  for every pattern have twelve entries.
\<close>

theorem missing_value_excluded:
  assumes "harness pd cu test_data_list = Inr st" "i < length candidate_regexes"
  shows "length test_data_list = 13 \<and> count_list test_data_list NaN = 1 \<and>
         length retained = 12 \<and>
         map Str retained = filter (\<lambda>d. d \<noteq> NaN) test_data_list \<and>
         test_data_to_show test_data_list = map Str retained \<and>
         map_of (results_by_data_point_dict st) Email = Some (ListV (map Str retained)) \<and>
         (\<exists>pm c. map_of (results_by_data_point_dict st) (PdRegex i) = Some (SeriesV pm) \<and>
            map_of (results_by_data_point_dict st) (CuRegex i) = Some (ArrayV c) \<and>
            index pm = [0, 2, 3, 4, 5, 6, 7, 8, 9, 10, 11, 12] \<and>
            size_col (vals pm) = 12 \<and> size_col c = 12)"
proof -
  let ?ps = "dropna (Series test_data_list)"
  have a: "length test_data_list = 13" "count_list test_data_list NaN = 1"
    by (simp_all add: test_data_list_def)
  have b: "map Str retained = filter (\<lambda>d. d \<noteq> NaN) test_data_list"
    "test_data_to_show test_data_list = map Str retained"
    unfolding retained_eq by (simp_all add: test_data_list_def test_data_to_show_def)
  have ret: "length (vals ?ps) = 12" using length_retained by (simp add: retained_def)
  from harness_recorded[OF assms] obtain pm bs where
    r: "map_of (results_by_data_point_dict st) (PdRegex i) = Some (SeriesV pm)"
      "map_of (results_by_data_point_dict st) (CuRegex i) =
         Some (ArrayV (vals (cu_outcome cu ?ps (candidate_regexes ! i) pm)))"
      "pm = \<lparr>index = index ?ps, vals = BoolCol bs\<rparr>"
      "length bs = length (vals ?ps)"
    unfolding recorded_def by blast
  have c: "size_col (vals (cu_outcome cu ?ps (candidate_regexes ! i) pm)) = 12"
    unfolding r(3) cu_outcome_vals using r(4) ret by (simp split: sum.splits)
  have p: "index pm = [0, 2, 3, 4, 5, 6, 7, 8, 9, 10, 11, 12]" "size_col (vals pm) = 12"
    using r(3,4) ret dropna_index by simp_all
  from r(1,2) c p have
    "\<exists>pm c. map_of (results_by_data_point_dict st) (PdRegex i) = Some (SeriesV pm) \<and>
            map_of (results_by_data_point_dict st) (CuRegex i) = Some (ArrayV c) \<and>
            index pm = [0, 2, 3, 4, 5, 6, 7, 8, 9, 10, 11, 12] \<and>
            size_col (vals pm) = 12 \<and> size_col c = 12"
    by blast
  with a b length_retained harness_email[OF assms(1)] show ?thesis by simp
qed

theorem missing_value_excluded_witness:
  "harness regex_engine failing_engine test_data_list =
     Inr (projr (harness regex_engine failing_engine test_data_list)) \<and>
   (5::nat) < length candidate_regexes \<and>
   length test_data_list = 13 \<and> count_list test_data_list NaN = 1 \<and>
   length retained = 12 \<and>
   map_of (results_by_data_point_dict
     (projr (harness regex_engine failing_engine test_data_list))) Email =
     Some (ListV (map Str retained))"
proof -
  have h1: "harness regex_engine failing_engine test_data_list =
     Inr (projr (harness regex_engine failing_engine test_data_list))"
    by (rule harness_Inr) (rule regex_engine_0)
  have h2: "(5::nat) < length candidate_regexes" by (simp add: length_candidates)
  from missing_value_excluded[OF h1 h2] h1 h2 show ?thesis by blast
qed

text \<open>
  C9. For any two engines, the run over the literal list and the run over the list with the
  missing value removed end the same way and show the same values: the same dictionary up
  to row labels, the same comparison results and the same printed lines. The same holds for
  every input list. Only the row labels differ between the two runs.
\<close>

theorem sentinel_noninterference:
  "map_sum id observed (harness pd cu (remove_nan test_data_list)) =
     map_sum id observed (harness pd cu test_data_list) \<and>
   (\<forall>tdl. map_sum id observed (harness pd cu (remove_nan tdl)) =
     map_sum id observed (harness pd cu tdl)) \<and>
   remove_nan test_data_list = map Str retained \<and>
   index (dropna (Series (remove_nan test_data_list))) = [0..<12] \<and>
   index (dropna (Series test_data_list)) = [0, 2, 3, 4, 5, 6, 7, 8, 9, 10, 11, 12]"
proof -
  have "remove_nan test_data_list = map Str retained"
    unfolding retained_eq by (simp add: remove_nan_def test_data_list_def)
  moreover have "index (dropna (Series (remove_nan test_data_list))) = [0..<12]"
    by (simp add: remove_nan_def dropna_def Series_def test_data_list_def Let_def
          List.map_filter_simps upt_rec)
  ultimately show ?thesis using harness_remove_nan dropna_index by blast
qed

text \<open>
  C10. When the second engine fails on a pattern, its handler ends with \<open>NameError\<close>
  exactly when \<open>pd_matches\<close> is unbound after the first \<open>try\<close>, that is, when the first
  engine failed on this pattern and no earlier pattern bound the name; otherwise the handler
  binds \<open>cu_matches\<close> to the sentinel series of the size of \<open>pd_matches\<close>. On the first
  pattern nothing is bound yet, so the run ends with \<open>NameError\<close> exactly when the first
  engine fails there, in particular when both engines fail.
\<close>

theorem cu_handler_precondition:
  assumes "cu my_rgx = Inl e"
  shows "(pd_matches (try_pandas pd ps my_rgx st) = None) =
           (isl (pd my_rgx) \<and> pd_matches st = None) \<and>
         isl (try_cudf cu cs my_rgx (try_pandas pd ps my_rgx st)) =
           (isl (pd my_rgx) \<and> pd_matches st = None) \<and>
         (case pd_matches (try_pandas pd ps my_rgx st) of
            None \<Rightarrow> try_cudf cu cs my_rgx (try_pandas pd ps my_rgx st) =
                      Inl (NameError ''pd_matches'')
          | Some pm \<Rightarrow>
              \<exists>st'. try_cudf cu cs my_rgx (try_pandas pd ps my_rgx st) = Inr st' \<and>
                    cu_matches st' = Some (cu_error_matches (size_col (vals pm)))) \<and>
         (harness pd cu tdl = Inl (NameError ''pd_matches'')) =
           isl (pd (candidate_regexes ! 0))"
proof -
  have a: "(pd_matches (try_pandas pd ps my_rgx st) = None) =
           (isl (pd my_rgx) \<and> pd_matches st = None)"
    by (cases "pd my_rgx") (simp_all add: try_pandas_def str_match_def)
  have b: "case pd_matches (try_pandas pd ps my_rgx st) of
            None \<Rightarrow> try_cudf cu cs my_rgx (try_pandas pd ps my_rgx st) =
                      Inl (NameError ''pd_matches'')
          | Some pm \<Rightarrow>
              \<exists>st'. try_cudf cu cs my_rgx (try_pandas pd ps my_rgx st) = Inr st' \<and>
                    cu_matches st' = Some (cu_error_matches (size_col (vals pm)))"
    using assms by (simp add: try_cudf_def str_match_def cu_handler_def split: option.splits)
  have c: "isl (try_cudf cu cs my_rgx (try_pandas pd ps my_rgx st)) =
           (isl (pd my_rgx) \<and> pd_matches st = None)"
    unfolding a[symmetric] using b by (auto split: option.splits)
  have d: "(harness pd cu tdl = Inl (NameError ''pd_matches'')) = isl (pd (candidate_regexes ! 0))"
    by (simp add: harness_Inl)
  from a b c d show ?thesis by blast
qed

theorem cu_handler_precondition_witness:
  "failing_engine (candidate_regexes ! 0) = Inl (Exn ''regex error'') \<and>
   isl (try_cudf failing_engine (dropna (Series test_data_list)) (candidate_regexes ! 0)
     (try_pandas failing_engine (dropna (Series test_data_list)) (candidate_regexes ! 0)
        \<lparr>pd_matches = None, cu_matches = None, results_by_data_point_dict = [],
         are_regex_results_equal = [None], stdout = []\<rparr>)) \<and>
   \<not> isl (try_cudf failing_engine (dropna (Series test_data_list)) (candidate_regexes ! 0)
     (try_pandas regex_engine (dropna (Series test_data_list)) (candidate_regexes ! 0)
        \<lparr>pd_matches = None, cu_matches = None, results_by_data_point_dict = [],
         are_regex_results_equal = [None], stdout = []\<rparr>)) \<and>
   harness failing_engine failing_engine test_data_list = Inl (NameError ''pd_matches'')"
proof -
  have h: "failing_engine (candidate_regexes ! 0) = Inl (Exn ''regex error'')"
    by (simp add: failing_engine_def)
  note t = cu_handler_precondition[where cu = failing_engine
      and my_rgx = "candidate_regexes ! 0" and e = "Exn ''regex error''"
      and ps = "dropna (Series test_data_list)" and cs = "dropna (Series test_data_list)"
      and st = "\<lparr>pd_matches = None, cu_matches = None, results_by_data_point_dict = [],
        are_regex_results_equal = [None], stdout = []\<rparr>"
      and tdl = test_data_list, OF h]
  from t[where pd = failing_engine] t[where pd = regex_engine] h regex_engine_0
  show ?thesis by (simp add: failing_engine_def)
qed

end
